theory Spec2Isabelle
  imports Complex_Main "HOL-Library.Multiset" "HOL-Library.Signed_Division"
begin

section \<open>Configuration constants and the process record\<close>

text \<open>
  The constants of \<^verbatim>\<open>main.cpp\<close>, lines 9 to 15. C++ \<^verbatim>\<open>int\<close> values are modelled as
  mathematical integers: the model describes the executions in which no signed
  arithmetic overflows (an overflow is undefined behaviour in C++).
\<close>

definition QUANTUM :: int where
  "QUANTUM = 4"

definition DEFAULT_PROCESS_COUNT :: nat where
  "DEFAULT_PROCESS_COUNT = 10"

definition MAX_BURST_TIME :: int where
  "MAX_BURST_TIME = 20"

definition MIN_BURST_TIME :: int where
  "MIN_BURST_TIME = 1"



definition NUM_QUEUES :: int where
  "NUM_QUEUES = 3"

record Process =
  pid :: int
  burst_time :: int
  priority :: int

section \<open>Double precision values\<close>

text \<open>
  The averages are C++ \<^verbatim>\<open>double\<close>s. A finite double is represented by the real number
  it denotes (rounding is not modelled); the special values that a division by zero
  produces are kept apart, so that \<^verbatim>\<open>0.0 / 0\<close> is \<open>NaN\<close> and not a number.
\<close>

datatype dbl = Fin real | PInf | NInf | NaN

fun dadd :: "dbl \<Rightarrow> dbl \<Rightarrow> dbl" where
  "dadd (Fin a) (Fin b) = Fin (a + b)"
| "dadd NaN _ = NaN"
| "dadd _ NaN = NaN"
| "dadd PInf NInf = NaN"
| "dadd NInf PInf = NaN"
| "dadd PInf _ = PInf"
| "dadd _ PInf = PInf"
| "dadd NInf _ = NInf"
| "dadd _ NInf = NInf"

text \<open>\<^verbatim>\<open>x /= N\<close> for a double \<open>x\<close> and an \<^verbatim>\<open>int\<close> \<open>N\<close> (converted to double).\<close>

fun ddiv :: "dbl \<Rightarrow> int \<Rightarrow> dbl" where
  "ddiv (Fin a) n =
     (if n \<noteq> 0 then Fin (a / real_of_int n)
      else if 0 < a then PInf else if a < 0 then NInf else NaN)"
| "ddiv PInf n = (if 0 \<le> n then PInf else NInf)"
| "ddiv NInf n = (if 0 \<le> n then NInf else PInf)"
| "ddiv NaN n = NaN"

section \<open>The metrics loops shared by FCFS, SJF and Priority\<close>

text \<open>
  What each strategy prints and returns: the table rows in execution order, the two
  per-process arrays, and the two averages. The C++ functions return
  \<open>avg_waiting_time\<close> and print the rest.
\<close>

record report =
  rows :: "Process list"
  waiting_times :: "int list"
  turnaround_times :: "int list"
  avg_waiting_time :: dbl
  avg_turnaround_time :: dbl

text \<open>
  \<^verbatim>\<open>for (int i = 1; i < N; i++) waiting_time[i] = waiting_time[i - 1] + processes[i - 1].burst_time;\<close>
  on \<^verbatim>\<open>std::vector<int> waiting_time(N, 0)\<close>.
\<close>

definition waiting_loop :: "Process list \<Rightarrow> int list" where
  "waiting_loop ps =
     fold (\<lambda>i w. w[i := w ! (i - 1) + burst_time (ps ! (i - 1))])
       [1..<length ps] (replicate (length ps) 0)"

text \<open>
  \<^verbatim>\<open>for (int i = 0; i < N; i++) turnaround_time[i] = waiting_time[i] + processes[i].burst_time;\<close>
\<close>

definition turnaround_loop :: "Process list \<Rightarrow> int list \<Rightarrow> int list" where
  "turnaround_loop ps w =
     fold (\<lambda>i t. t[i := w ! i + burst_time (ps ! i)])
       [0..<length ps] (replicate (length ps) 0)"

text \<open>
  The accumulation of both sums in doubles (sums of \<^verbatim>\<open>int\<close>s, hence finite), before
  the two divisions by \<open>N\<close>.
\<close>

definition sum_loop :: "nat \<Rightarrow> int list \<Rightarrow> int list \<Rightarrow> real \<times> real" where
  "sum_loop N w t =
     fold (\<lambda>i (a, b). (a + real_of_int (w ! i), b + real_of_int (t ! i))) [0..<N] (0, 0)"

definition averages :: "nat \<Rightarrow> int list \<Rightarrow> int list \<Rightarrow> dbl \<times> dbl" where
  "averages N w t =
     (case sum_loop N w t of (a, b) \<Rightarrow> (ddiv (Fin a) (int N), ddiv (Fin b) (int N)))"

text \<open>
  The body that \<^verbatim>\<open>first_come_first_served\<close>, \<^verbatim>\<open>shortest_job_first\<close> and
  \<^verbatim>\<open>priority_scheduling\<close> repeat verbatim on the sequence they execute.
\<close>

definition schedule_metrics :: "Process list \<Rightarrow> report" where
  "schedule_metrics ps =
     (let w = waiting_loop ps;
          t = turnaround_loop ps w;
          (a, b) = averages (length ps) w t
      in \<lparr>rows = ps, waiting_times = w, turnaround_times = t,
          avg_waiting_time = a, avg_turnaround_time = b\<rparr>)"

definition first_come_first_served :: "Process list \<Rightarrow> report" where
  "first_come_first_served processes = schedule_metrics processes"


section \<open>The library sort\<close>

text \<open>
  \<^verbatim>\<open>std::sort\<close> belongs to the C++ standard library, not to this program, so it is a
  parameter of the two strategies that call it. What the C++ standard promises of
  \<^verbatim>\<open>std::sort(first, last, cmp)\<close> is \<open>std_sort_post\<close>: the range is permuted so that no
  element compares less than an element before it. The standard leaves the order of
  equivalent elements open (\<^verbatim>\<open>std::stable_sort\<close> is the one that keeps it).
\<close>

type_synonym sorter = "(Process \<Rightarrow> Process \<Rightarrow> bool) \<Rightarrow> Process list \<Rightarrow> Process list"

definition std_sort_post :: "(Process \<Rightarrow> Process \<Rightarrow> bool) \<Rightarrow> Process list \<Rightarrow> Process list \<Rightarrow> bool" where
  "std_sort_post cmp xs ys \<longleftrightarrow> mset ys = mset xs \<and> sorted_wrt (\<lambda>a b. \<not> cmp b a) ys"

text \<open>
  Two sorting algorithms that fulfil this contract, used as instances of the parameter:
  an insertion sort that places an element behind the elements equivalent to it, and
  one that places it in front of them.
\<close>

fun insert_behind :: "(Process \<Rightarrow> Process \<Rightarrow> bool) \<Rightarrow> Process \<Rightarrow> Process list \<Rightarrow> Process list" where
  "insert_behind cmp x [] = [x]"
| "insert_behind cmp x (y # ys) =
     (if cmp x y then x # y # ys else y # insert_behind cmp x ys)"

definition insertion_sort_behind :: sorter where
  "insertion_sort_behind cmp xs = fold (insert_behind cmp) xs []"

fun insert_in_front :: "(Process \<Rightarrow> Process \<Rightarrow> bool) \<Rightarrow> Process \<Rightarrow> Process list \<Rightarrow> Process list" where
  "insert_in_front cmp x [] = [x]"
| "insert_in_front cmp x (y # ys) =
     (if cmp y x then y # insert_in_front cmp x ys else x # y # ys)"

definition insertion_sort_in_front :: sorter where
  "insertion_sort_in_front cmp xs = fold (insert_in_front cmp) xs []"


section \<open>SJF and Priority\<close>

definition compareByBurstTime :: "Process \<Rightarrow> Process \<Rightarrow> bool" where
  "compareByBurstTime a b \<longleftrightarrow> burst_time a < burst_time b"

definition shortest_job_first :: "sorter \<Rightarrow> Process list \<Rightarrow> report" where
  "shortest_job_first std_sort processes =
     (let processes_copy = std_sort compareByBurstTime processes
      in schedule_metrics processes_copy)"

definition priority_scheduling :: "sorter \<Rightarrow> Process list \<Rightarrow> report" where
  "priority_scheduling std_sort processes =
     (let processes_copy = std_sort (\<lambda>a b. priority a < priority b) processes
      in schedule_metrics processes_copy)"

section \<open>Round Robin\<close>

text \<open>
  The variables of \<^verbatim>\<open>round_robin\<close> that its loop changes. \<open>slices\<close> is a history
  variable that the program does not have: every branch that advances the clock
  appends the index it ran and the time it granted. No branch reads it.
\<close>

record rr_state =
  time :: int
  remaining_burst_time :: "int list"
  waiting_time :: "int list"
  completion_time :: "int list"
  slices :: "(nat \<times> int) list"

definition rr_init :: "Process list \<Rightarrow> rr_state" where
  "rr_init processes =
     \<lparr>time = 0,
      remaining_burst_time = map burst_time processes,
      waiting_time = replicate (length processes) 0,
      completion_time = replicate (length processes) 0,
      slices = []\<rparr>"

text \<open>The body of the inner \<^verbatim>\<open>for\<close> loop at index \<open>i\<close>, with the flag \<open>done\<close>.\<close>

definition rr_visit :: "Process list \<Rightarrow> nat \<Rightarrow> bool \<times> rr_state \<Rightarrow> bool \<times> rr_state" where
  "rr_visit processes i ds =
     (case ds of (done, s) \<Rightarrow>
        if remaining_burst_time s ! i > 0 then
          (False,
           if remaining_burst_time s ! i > QUANTUM then
             s\<lparr>time := time s + QUANTUM,
               remaining_burst_time :=
                 (remaining_burst_time s)[i := remaining_burst_time s ! i - QUANTUM],
               slices := slices s @ [(i, QUANTUM)]\<rparr>
           else
             (let t = time s + remaining_burst_time s ! i
              in s\<lparr>time := t,
                   waiting_time := (waiting_time s)[i := t - burst_time (processes ! i)],
                   completion_time := (completion_time s)[i := t],
                   remaining_burst_time := (remaining_burst_time s)[i := 0],
                   slices := slices s @ [(i, remaining_burst_time s ! i)]\<rparr>))
        else (done, s))"

text \<open>One pass of the \<^verbatim>\<open>for\<close> loop over \<open>0..N-1\<close>, started with \<^verbatim>\<open>done = true\<close>.\<close>

definition rr_sweep :: "Process list \<Rightarrow> rr_state \<Rightarrow> bool \<times> rr_state" where
  "rr_sweep processes s = fold (rr_visit processes) [0..<length processes] (True, s)"

text \<open>
  \<^verbatim>\<open>while (true) { ...; if (done == true) break; }\<close>. Nothing in the loop's text bounds
  it, so not returning is the value \<open>None\<close>.
\<close>

partial_function (option) rr_loop :: "Process list \<Rightarrow> rr_state \<Rightarrow> rr_state option" where
  "rr_loop processes s =
     (case rr_sweep processes s of (done, s') \<Rightarrow>
        if done then Some s' else rr_loop processes s')"

declare rr_loop.simps [code]

record rr_report = report +
  completion_times :: "int list"
  executed :: "(nat \<times> int) list"

definition round_robin :: "Process list \<Rightarrow> rr_report option" where
  "round_robin processes =
     (case rr_loop processes (rr_init processes) of
        None \<Rightarrow> None
      | Some s \<Rightarrow>
          (let w = waiting_time s;
               t = turnaround_loop processes w;
               (a, b) = averages (length processes) w t
           in Some \<lparr>rows = processes, waiting_times = w, turnaround_times = t,
                    avg_waiting_time = a, avg_turnaround_time = b,
                    completion_times = completion_time s, executed = slices s\<rparr>))"

text \<open>
  Readings of the history variable: the clock when process \<open>i\<close> ran its last slice, and
  the time process \<open>i\<close> was granted over all its slices.
\<close>

definition elapsed_at_completion :: "(nat \<times> int) list \<Rightarrow> nat \<Rightarrow> int" where
  "elapsed_at_completion sl i = sum_list (map snd (dropWhile (\<lambda>e. fst e \<noteq> i) (rev sl)))"

definition executed_total :: "(nat \<times> int) list \<Rightarrow> nat \<Rightarrow> int" where
  "executed_total sl i = sum_list (map snd (filter (\<lambda>e. fst e = i) sl))"

text \<open>The state after \<open>n\<close> sweeps.\<close>

fun sweeps :: "Process list \<Rightarrow> nat \<Rightarrow> rr_state \<Rightarrow> rr_state" where
  "sweeps processes 0 s = s"
| "sweeps processes (Suc n) s = sweeps processes n (snd (rr_sweep processes s))"

text \<open>The work left: a remaining burst that is not positive counts as 0.\<close>

definition remaining_work :: "rr_state \<Rightarrow> nat" where
  "remaining_work s = sum_list (map nat (remaining_burst_time s))"

text \<open>
  The loop invariant of \<^verbatim>\<open>round_robin\<close>: the arrays keep the size of the batch; the
  clock is the sum of the slices granted, and with the remaining bursts it adds up to
  the sum of all bursts; every slice is a positive time of at most the quantum, given
  to a process of the batch; no remaining burst is negative, and with the time the
  process was granted it adds up to the process's burst; no completion time is ahead of
  the clock; a process with nothing left has its completion time at the clock of its
  last slice, and its waiting time is that less its burst; and while nothing remains
  of any process, some completion time is the clock.
\<close>

definition rr_inv :: "Process list \<Rightarrow> rr_state \<Rightarrow> bool" where
  "rr_inv ps s \<longleftrightarrow>
     length (remaining_burst_time s) = length ps \<and>
     length (waiting_time s) = length ps \<and>
     length (completion_time s) = length ps \<and>
     time s = sum_list (map snd (slices s)) \<and>
     time s + sum_list (remaining_burst_time s) = sum_list (map burst_time ps) \<and>
     (\<forall>e\<in>set (slices s). fst e < length ps \<and> 0 < snd e \<and> snd e \<le> QUANTUM) \<and>
     (\<forall>j<length ps.
        0 \<le> remaining_burst_time s ! j \<and>
        remaining_burst_time s ! j + executed_total (slices s) j = burst_time (ps ! j) \<and>
        completion_time s ! j \<le> time s \<and>
        (remaining_burst_time s ! j = 0 \<longrightarrow>
           completion_time s ! j = elapsed_at_completion (slices s) j \<and>
           waiting_time s ! j = completion_time s ! j - burst_time (ps ! j))) \<and>
     ((\<exists>j<length ps. 0 < remaining_burst_time s ! j) \<or>
      (\<exists>j<length ps. completion_time s ! j = time s) \<or> ps = [])"

section \<open>Multilevel queue\<close>

definition total_burst_time :: "Process list \<Rightarrow> real" where
  "total_burst_time processes = fold (\<lambda>process total. total + real_of_int (burst_time process)) processes 0"

text \<open>
  \<^verbatim>\<open>rand()\<close> is the C library's: \<open>rnd k\<close> is the value (between 0 and \<^verbatim>\<open>RAND_MAX\<close>) that
  its \<open>k\<close>-th call after \<^verbatim>\<open>srand\<close> returns. \<^verbatim>\<open>%\<close> truncates, which is \<open>smod\<close>.
\<close>

definition distribute :: "(nat \<Rightarrow> nat) \<Rightarrow> Process list \<Rightarrow> Process list list" where
  "distribute rnd processes =
     fold (\<lambda>(k, process) queues.
             (let queue_number = nat (int (rnd k) smod NUM_QUEUES)
              in queues[queue_number := queues ! queue_number @ [process]]))
       (enumerate 0 processes) (replicate (nat NUM_QUEUES) [])"

record ml_report =
  queue_sizes :: "nat list"
  avg_waiting_time_0 :: dbl
  avg_waiting_time_1 :: dbl
  avg_waiting_time_2 :: dbl
  overall_avg_waiting_time :: dbl

definition multilevel_queue_scheduling ::
    "sorter \<Rightarrow> (nat \<Rightarrow> nat) \<Rightarrow> Process list \<Rightarrow> ml_report option" where
  "multilevel_queue_scheduling std_sort rnd processes =
     (let queues = distribute rnd processes in
      case (if queues ! 0 \<noteq> [] then map_option avg_waiting_time (round_robin (queues ! 0))
            else Some (Fin 0)) of
        None \<Rightarrow> None
      | Some a0 \<Rightarrow>
          (let total_burst_time_0 = total_burst_time (queues ! 0);
               a1 = (if queues ! 1 \<noteq> []
                     then dadd (avg_waiting_time (first_come_first_served (queues ! 1)))
                            (Fin total_burst_time_0)
                     else Fin 0);
               total_burst_time_1 = total_burst_time (queues ! 1);
               a2 = (if queues ! 2 \<noteq> []
                     then dadd (avg_waiting_time (shortest_job_first std_sort (queues ! 2)))
                            (Fin (total_burst_time_0 + total_burst_time_1))
                     else Fin 0);
               total_waiting_time = dadd (dadd a0 a1) a2
           in Some \<lparr>queue_sizes = map length queues,
                    avg_waiting_time_0 = a0, avg_waiting_time_1 = a1, avg_waiting_time_2 = a2,
                    overall_avg_waiting_time = ddiv total_waiting_time NUM_QUEUES\<rparr>))"

section \<open>Process generation\<close>






section \<open>The batch of the specification's scenarios\<close>

definition scenario_batch :: "Process list" where
  "scenario_batch =
     [\<lparr>pid = 0, burst_time = 5, priority = 1\<rparr>,
      \<lparr>pid = 1, burst_time = 3, priority = 2\<rparr>,
      \<lparr>pid = 2, burst_time = 8, priority = 1\<rparr>]"

section \<open>Total waiting time of a sequence of bursts\<close>


section \<open>What the metrics loops compute\<close>

lemma waiting_fold_inv:
  "n \<le> length ps \<Longrightarrow>
   length (fold (\<lambda>i w. w[i := w ! (i - 1) + burst_time (ps ! (i - 1))]) [1..<n]
             (replicate (length ps) 0)) = length ps \<and>
   (\<forall>i<n. fold (\<lambda>i w. w[i := w ! (i - 1) + burst_time (ps ! (i - 1))]) [1..<n]
             (replicate (length ps) 0) ! i
       = sum_list (map burst_time (take i ps)))"
proof (induction n)
  case 0
  then show ?case by simp
next
  case (Suc n)
  show ?case
  proof (cases "n = 0")
    case True
    with Suc.prems show ?thesis by (simp add: Suc_le_eq)
  next
    case False
    then have upt: "[1..<Suc n] = [1..<n] @ [n]" by simp
    from Suc have IH:
      "length (fold (\<lambda>i w. w[i := w ! (i - 1) + burst_time (ps ! (i - 1))]) [1..<n]
                 (replicate (length ps) 0)) = length ps"
      "\<And>i. i < n \<Longrightarrow>
         fold (\<lambda>i w. w[i := w ! (i - 1) + burst_time (ps ! (i - 1))]) [1..<n]
           (replicate (length ps) 0) ! i
         = sum_list (map burst_time (take i ps))"
      by simp_all
    have tk: "take n ps = take (n - 1) ps @ [ps ! (n - 1)]"
      using False Suc.prems take_Suc_conv_app_nth [of "n - 1" ps] by simp
    show ?thesis
      unfolding upt fold_append
      using IH False Suc.prems by (auto simp: nth_list_update less_Suc_eq tk)
  qed
qed

lemma length_waiting_loop: "length (waiting_loop ps) = length ps"
  using waiting_fold_inv [of "length ps" ps] by (simp add: waiting_loop_def)

lemma nth_waiting_loop:
  "i < length ps \<Longrightarrow> waiting_loop ps ! i = sum_list (map burst_time (take i ps))"
  using waiting_fold_inv [of "length ps" ps] by (simp add: waiting_loop_def)

lemma turnaround_fold_inv:
  "n \<le> length ps \<Longrightarrow>
   length (fold (\<lambda>i t. t[i := w ! i + burst_time (ps ! i)]) [0..<n]
             (replicate (length ps) 0)) = length ps \<and>
   (\<forall>i<n. fold (\<lambda>i t. t[i := w ! i + burst_time (ps ! i)]) [0..<n]
             (replicate (length ps) 0) ! i
       = w ! i + burst_time (ps ! i))"
  by (induction n) (auto simp: nth_list_update less_Suc_eq)

lemma length_turnaround_loop: "length (turnaround_loop ps w) = length ps"
  using turnaround_fold_inv [of "length ps" ps w] by (simp add: turnaround_loop_def)

lemma nth_turnaround_loop:
  "i < length ps \<Longrightarrow> turnaround_loop ps w ! i = w ! i + burst_time (ps ! i)"
  using turnaround_fold_inv [of "length ps" ps w] by (simp add: turnaround_loop_def)

lemma sum_fold_inv:
  "n \<le> length w \<Longrightarrow> n \<le> length t \<Longrightarrow>
   fold (\<lambda>i (a, b). (a + real_of_int (w ! i), b + real_of_int (t ! i))) [0..<n] (0, 0)
     = (real_of_int (sum_list (take n w)), real_of_int (sum_list (take n t)))"
  by (induction n) (auto simp: take_Suc_conv_app_nth)

lemma sum_loop_eq:
  "length w = N \<Longrightarrow> length t = N \<Longrightarrow>
   sum_loop N w t = (real_of_int (sum_list w), real_of_int (sum_list t))"
  using sum_fold_inv [of N w t] by (simp add: sum_loop_def)

lemma averages_nonempty:
  "length w = N \<Longrightarrow> length t = N \<Longrightarrow> 0 < N \<Longrightarrow>
   averages N w t =
     (Fin (real_of_int (sum_list w) / real N), Fin (real_of_int (sum_list t) / real N))"
  by (simp add: averages_def sum_loop_eq)

lemma averages_empty: "averages 0 w t = (NaN, NaN)"
  by (simp add: averages_def sum_loop_def)

lemma schedule_metrics_fields:
  "rows (schedule_metrics ps) = ps"
  "waiting_times (schedule_metrics ps) = waiting_loop ps"
  "turnaround_times (schedule_metrics ps) = turnaround_loop ps (waiting_loop ps)"
  by (simp_all add: schedule_metrics_def Let_def split: prod.splits)

lemma schedule_metrics_avgs:
  "ps \<noteq> [] \<Longrightarrow> avg_waiting_time (schedule_metrics ps)
      = Fin (real_of_int (sum_list (waiting_loop ps)) / real (length ps))"
  "ps \<noteq> [] \<Longrightarrow> avg_turnaround_time (schedule_metrics ps)
      = Fin (real_of_int (sum_list (turnaround_loop ps (waiting_loop ps))) / real (length ps))"
  by (simp_all add: schedule_metrics_def Let_def averages_nonempty length_waiting_loop
      length_turnaround_loop)

lemma waiting_loop_recurrence:
  assumes "0 < i" "i < length ps"
  shows "waiting_loop ps ! i = waiting_loop ps ! (i - 1) + burst_time (ps ! (i - 1))"
proof -
  have "take i ps = take (i - 1) ps @ [ps ! (i - 1)]"
    using assms take_Suc_conv_app_nth [of "i - 1" ps] by simp
  then show ?thesis
    using assms by (simp add: nth_waiting_loop)
qed

lemma schedule_metrics_recurrence:
  assumes "ordered \<noteq> []"
  shows "length (waiting_times (schedule_metrics ordered)) = length ordered"
    and "length (turnaround_times (schedule_metrics ordered)) = length ordered"
    and "waiting_times (schedule_metrics ordered) ! 0 = 0"
    and "\<And>i. 0 < i \<Longrightarrow> i < length ordered \<Longrightarrow>
           waiting_times (schedule_metrics ordered) ! i =
             waiting_times (schedule_metrics ordered) ! (i - 1) + burst_time (ordered ! (i - 1))"
    and "\<And>i. i < length ordered \<Longrightarrow>
           turnaround_times (schedule_metrics ordered) ! i =
             waiting_times (schedule_metrics ordered) ! i + burst_time (ordered ! i)"
proof -
  show "length (waiting_times (schedule_metrics ordered)) = length ordered"
    by (simp add: schedule_metrics_fields length_waiting_loop)
  show "length (turnaround_times (schedule_metrics ordered)) = length ordered"
    by (simp add: schedule_metrics_fields length_turnaround_loop)
  show "waiting_times (schedule_metrics ordered) ! 0 = 0"
    using assms by (simp add: schedule_metrics_fields nth_waiting_loop)
  show "waiting_times (schedule_metrics ordered) ! i =
          waiting_times (schedule_metrics ordered) ! (i - 1) + burst_time (ordered ! (i - 1))"
    if "0 < i" "i < length ordered" for i
    using that waiting_loop_recurrence [of i ordered] by (simp add: schedule_metrics_fields)
  show "turnaround_times (schedule_metrics ordered) ! i =
          waiting_times (schedule_metrics ordered) ! i + burst_time (ordered ! i)"
    if "i < length ordered" for i
    using that by (simp add: schedule_metrics_fields nth_turnaround_loop)
qed

lemma std_sort_post_length: "std_sort_post cmp xs ys \<Longrightarrow> length ys = length xs"
  unfolding std_sort_post_def by (metis size_mset)

lemma std_sort_post_nonempty: "std_sort_post cmp xs ys \<Longrightarrow> xs \<noteq> [] \<Longrightarrow> ys \<noteq> []"
  using std_sort_post_length by fastforce

section \<open>FCFS\<close>

text \<open>
  C6. FCFS executes the batch in its arrival order, and the first process of a
  non-empty batch waits 0. On the scenario batch the waiting times are 0, 5 and 8, the
  turnaround times 5, 8 and 16, and the average waiting time is 13/3, which two
  decimals print as 4.33.
\<close>

theorem fcfs_keeps_arrival_order:
  "rows (first_come_first_served processes) = processes \<and>
   (processes \<noteq> [] \<longrightarrow> waiting_times (first_come_first_served processes) ! 0 = 0) \<and>
   waiting_times (first_come_first_served scenario_batch) = [0, 5, 8] \<and>
   turnaround_times (first_come_first_served scenario_batch) = [5, 8, 16] \<and>
   avg_waiting_time (first_come_first_served scenario_batch) = Fin (13 / 3) \<and>
   \<bar>13 / 3 - 433 / 100 :: real\<bar> < 1 / 200"
proof -
  have "rows (first_come_first_served processes) = processes"
    by (simp add: first_come_first_served_def schedule_metrics_fields)
  moreover have "processes \<noteq> [] \<longrightarrow> waiting_times (first_come_first_served processes) ! 0 = 0"
    by (simp add: first_come_first_served_def schedule_metrics_recurrence)
  moreover have "waiting_times (first_come_first_served scenario_batch) = [0, 5, 8]"
    by (simp add: first_come_first_served_def schedule_metrics_fields waiting_loop_def
        scenario_batch_def)
  moreover have "turnaround_times (first_come_first_served scenario_batch) = [5, 8, 16]"
    by (simp add: first_come_first_served_def schedule_metrics_fields waiting_loop_def
        turnaround_loop_def scenario_batch_def)
  moreover have "avg_waiting_time (first_come_first_served scenario_batch) = Fin (13 / 3)"
    by (simp add: first_come_first_served_def schedule_metrics_avgs waiting_loop_def
        scenario_batch_def)
  moreover have "\<bar>13 / 3 - 433 / 100 :: real\<bar> < 1 / 200"
    by simp
  ultimately show ?thesis by blast
qed

theorem fcfs_keeps_arrival_order_witness:
  "rows (first_come_first_served [\<lparr>pid = 7, burst_time = 2, priority = 3\<rparr>])
     = [\<lparr>pid = 7, burst_time = 2, priority = 3\<rparr>] \<and>
   [\<lparr>pid = 7, burst_time = 2, priority = 3\<rparr>] \<noteq> [] \<and>
   waiting_times (first_come_first_served [\<lparr>pid = 7, burst_time = 2, priority = 3\<rparr>]) ! 0 = 0"
  using fcfs_keeps_arrival_order [of "[\<lparr>pid = 7, burst_time = 2, priority = 3\<rparr>]"]
  by simp

section \<open>The recurrences of the non-preemptive strategies\<close>




section \<open>The library sort: consequences of the contract, and the two instances\<close>










lemma mset_insert_in_front: "mset (insert_in_front cmp x ys) = add_mset x (mset ys)"
  by (induction ys) auto
lemma mset_insert_behind: "mset (insert_behind cmp x ys) = add_mset x (mset ys)"
  by (induction ys) auto
lemma mset_fold_in_front: "mset (fold (insert_in_front cmp) xs acc) = mset xs + mset acc"
  by (induction xs arbitrary: acc) (auto simp: mset_insert_in_front)
lemma mset_fold_behind: "mset (fold (insert_behind cmp) xs acc) = mset xs + mset acc"
  by (induction xs arbitrary: acc) (auto simp: mset_insert_behind)
lemma set_insert_in_front: "set (insert_in_front cmp x ys) = insert x (set ys)"
  by (induction ys) auto
lemma set_insert_behind: "set (insert_behind cmp x ys) = insert x (set ys)"
  by (induction ys) auto
lemma sorted_insert_in_front:
  "sorted_wrt (\<lambda>a b. \<not> key b < (key a :: int)) ys \<Longrightarrow>
   sorted_wrt (\<lambda>a b. \<not> key b < key a) (insert_in_front (\<lambda>a b. key a < key b) x ys)"
  by (induction ys) (auto simp: set_insert_in_front)
lemma sorted_insert_behind:
  "sorted_wrt (\<lambda>a b. \<not> key b < (key a :: int)) ys \<Longrightarrow>
   sorted_wrt (\<lambda>a b. \<not> key b < key a) (insert_behind (\<lambda>a b. key a < key b) x ys)"
  by (induction ys) (auto simp: set_insert_behind)
lemma sorted_fold_in_front:
  "sorted_wrt (\<lambda>a b. \<not> key b < (key a :: int)) acc \<Longrightarrow>
   sorted_wrt (\<lambda>a b. \<not> key b < key a) (fold (insert_in_front (\<lambda>a b. key a < key b)) xs acc)"
  by (induction xs arbitrary: acc) (auto simp: sorted_insert_in_front)
lemma sorted_fold_behind:
  "sorted_wrt (\<lambda>a b. \<not> key b < (key a :: int)) acc \<Longrightarrow>
   sorted_wrt (\<lambda>a b. \<not> key b < key a) (fold (insert_behind (\<lambda>a b. key a < key b)) xs acc)"
  by (induction xs arbitrary: acc) (auto simp: sorted_insert_behind)
lemma insertion_sort_in_front_contract:
  "std_sort_post (\<lambda>a b. key a < (key b :: int)) xs (insertion_sort_in_front (\<lambda>a b. key a < key b) xs)"
  by (simp add: std_sort_post_def insertion_sort_in_front_def mset_fold_in_front sorted_fold_in_front)
lemma insertion_sort_behind_contract:
  "std_sort_post (\<lambda>a b. key a < (key b :: int)) xs (insertion_sort_behind (\<lambda>a b. key a < key b) xs)"
  by (simp add: std_sort_post_def insertion_sort_behind_def mset_fold_behind sorted_fold_behind)







section \<open>SJF and Priority: the execution order\<close>





section \<open>SJF against FCFS\<close>





section \<open>Round Robin: one visit, one sweep, the loop\<close>


lemma rr_visit_skip:
  "\<not> 0 < remaining_burst_time s ! i \<Longrightarrow> rr_visit ps i (d, s) = (d, s)"
  by (simp add: rr_visit_def)

lemma rr_visit_quantum:
  "QUANTUM < remaining_burst_time s ! i \<Longrightarrow>
   rr_visit ps i (d, s) =
     (False, s\<lparr>time := time s + QUANTUM,
               remaining_burst_time :=
                 (remaining_burst_time s)[i := remaining_burst_time s ! i - QUANTUM],
               slices := slices s @ [(i, QUANTUM)]\<rparr>)"
  by (simp add: rr_visit_def QUANTUM_def)

lemma rr_visit_finish:
  "0 < remaining_burst_time s ! i \<Longrightarrow> remaining_burst_time s ! i \<le> QUANTUM \<Longrightarrow>
   rr_visit ps i (d, s) =
     (False, s\<lparr>time := time s + remaining_burst_time s ! i,
               waiting_time := (waiting_time s)
                 [i := time s + remaining_burst_time s ! i - burst_time (ps ! i)],
               completion_time := (completion_time s)[i := time s + remaining_burst_time s ! i],
               remaining_burst_time := (remaining_burst_time s)[i := 0],
               slices := slices s @ [(i, remaining_burst_time s ! i)]\<rparr>)"
  by (simp add: rr_visit_def Let_def)

lemma rr_visit_cases:
  obtains (skip) "\<not> 0 < remaining_burst_time s ! i"
  | (quantum) "QUANTUM < remaining_burst_time s ! i"
  | (finish) "0 < remaining_burst_time s ! i" "remaining_burst_time s ! i \<le> QUANTUM"
  by fastforce

lemma sum_list_nat_update:
  "i < length xs \<Longrightarrow>
   sum_list (map nat (xs[i := v])) + nat (xs ! i) = sum_list (map nat xs) + nat v"
proof (induction xs arbitrary: i)
  case Nil
  then show ?case by simp
next
  case (Cons x xs)
  then show ?case by (cases i) (simp_all add: add.commute add.left_commute)
qed

lemma rr_visit_basic:
  assumes "i < length (remaining_burst_time s)"
  shows "length (remaining_burst_time (snd (rr_visit ps i (d, s)))) = length (remaining_burst_time s)"
    and "fst (rr_visit ps i (d, s)) \<longleftrightarrow> d \<and> remaining_burst_time s ! i \<le> 0"
    and "remaining_burst_time s ! i \<le> 0 \<Longrightarrow> snd (rr_visit ps i (d, s)) = s"
    and "\<And>j. j \<noteq> i \<Longrightarrow>
           remaining_burst_time (snd (rr_visit ps i (d, s))) ! j = remaining_burst_time s ! j"
    and "remaining_work (snd (rr_visit ps i (d, s))) \<le> remaining_work s"
    and "0 < remaining_burst_time s ! i \<Longrightarrow>
           remaining_work (snd (rr_visit ps i (d, s))) < remaining_work s"
proof -
  show "length (remaining_burst_time (snd (rr_visit ps i (d, s)))) = length (remaining_burst_time s)"
    by (cases rule: rr_visit_cases [of s i])
      (simp_all add: rr_visit_skip rr_visit_quantum rr_visit_finish)
  show "fst (rr_visit ps i (d, s)) \<longleftrightarrow> d \<and> remaining_burst_time s ! i \<le> 0"
    by (cases rule: rr_visit_cases [of s i])
      (auto simp: rr_visit_skip rr_visit_quantum rr_visit_finish QUANTUM_def)
  show "snd (rr_visit ps i (d, s)) = s" if "remaining_burst_time s ! i \<le> 0"
    using that by (simp add: rr_visit_skip)
  show "remaining_burst_time (snd (rr_visit ps i (d, s))) ! j = remaining_burst_time s ! j"
    if "j \<noteq> i" for j
    using that by (cases rule: rr_visit_cases [of s i])
      (simp_all add: rr_visit_skip rr_visit_quantum rr_visit_finish)
  have dec: "remaining_work (snd (rr_visit ps i (d, s))) < remaining_work s"
    if pos: "0 < remaining_burst_time s ! i"
  proof (cases "QUANTUM < remaining_burst_time s ! i")
    case True
    have lt: "nat (remaining_burst_time s ! i - QUANTUM) < nat (remaining_burst_time s ! i)"
      using True by (simp add: QUANTUM_def)
    have "remaining_work (snd (rr_visit ps i (d, s))) + nat (remaining_burst_time s ! i)
        = remaining_work s + nat (remaining_burst_time s ! i - QUANTUM)"
      using sum_list_nat_update [OF assms, of "remaining_burst_time s ! i - QUANTUM"]
      by (simp add: rr_visit_quantum [OF True] remaining_work_def)
    with lt show ?thesis by linarith
  next
    case False
    then have le: "remaining_burst_time s ! i \<le> QUANTUM" by simp
    have lt: "0 < nat (remaining_burst_time s ! i)" using pos by simp
    have "remaining_work (snd (rr_visit ps i (d, s))) + nat (remaining_burst_time s ! i)
        = remaining_work s"
      using sum_list_nat_update [OF assms, of 0]
      by (simp add: rr_visit_finish [OF pos le] remaining_work_def)
    with lt show ?thesis by linarith
  qed
  then show "0 < remaining_burst_time s ! i \<Longrightarrow>
           remaining_work (snd (rr_visit ps i (d, s))) < remaining_work s" .
  show "remaining_work (snd (rr_visit ps i (d, s))) \<le> remaining_work s"
  proof (cases "0 < remaining_burst_time s ! i")
    case True
    then show ?thesis using dec by simp
  next
    case False
    then show ?thesis by (simp add: rr_visit_skip)
  qed
qed



lemma sweep_prefix:
  assumes "length (remaining_burst_time s) = length ps"
  shows "n \<le> length ps \<Longrightarrow>
    length (remaining_burst_time (snd (fold (rr_visit ps) [0..<n] (True, s)))) = length ps \<and>
    (\<forall>j. n \<le> j \<longrightarrow>
       remaining_burst_time (snd (fold (rr_visit ps) [0..<n] (True, s))) ! j
         = remaining_burst_time s ! j) \<and>
    (fst (fold (rr_visit ps) [0..<n] (True, s)) \<longleftrightarrow> (\<forall>j<n. remaining_burst_time s ! j \<le> 0)) \<and>
    (fst (fold (rr_visit ps) [0..<n] (True, s)) \<longrightarrow> snd (fold (rr_visit ps) [0..<n] (True, s)) = s) \<and>
    remaining_work (snd (fold (rr_visit ps) [0..<n] (True, s))) \<le> remaining_work s \<and>
    (\<not> fst (fold (rr_visit ps) [0..<n] (True, s)) \<longrightarrow>
       remaining_work (snd (fold (rr_visit ps) [0..<n] (True, s))) < remaining_work s)"
proof (induction n)
  case 0
  then show ?case using assms by simp
next
  case (Suc n)
  obtain d0 s0 where r: "fold (rr_visit ps) [0..<n] (True, s) = (d0, s0)"
    by (cases "fold (rr_visit ps) [0..<n] (True, s)")
  have step: "fold (rr_visit ps) [0..<Suc n] (True, s) = rr_visit ps n (d0, s0)"
    by (simp add: r)
  from Suc have IH:
    "length (remaining_burst_time s0) = length ps"
    "\<And>j. n \<le> j \<Longrightarrow> remaining_burst_time s0 ! j = remaining_burst_time s ! j"
    "d0 \<longleftrightarrow> (\<forall>j<n. remaining_burst_time s ! j \<le> 0)"
    "d0 \<Longrightarrow> s0 = s"
    "remaining_work s0 \<le> remaining_work s"
    "\<not> d0 \<Longrightarrow> remaining_work s0 < remaining_work s"
    by (simp_all add: r)
  have n: "n < length (remaining_burst_time s0)"
    using Suc.prems IH(1) by simp
  note B = rr_visit_basic [where ps = ps and d = d0, OF n]
  have here: "remaining_burst_time s0 ! n = remaining_burst_time s ! n"
    by (simp add: IH(2))
  have 1: "length (remaining_burst_time (snd (rr_visit ps n (d0, s0)))) = length ps"
    using B(1) IH(1) by simp
  have 2: "\<forall>j. Suc n \<le> j \<longrightarrow>
       remaining_burst_time (snd (rr_visit ps n (d0, s0))) ! j = remaining_burst_time s ! j"
    using B(4) IH(2) by simp
  have 3: "fst (rr_visit ps n (d0, s0)) \<longleftrightarrow> (\<forall>j<Suc n. remaining_burst_time s ! j \<le> 0)"
    using B(2) IH(3) here by (auto simp: less_Suc_eq)
  have 4: "fst (rr_visit ps n (d0, s0)) \<longrightarrow> snd (rr_visit ps n (d0, s0)) = s"
  proof
    assume "fst (rr_visit ps n (d0, s0))"
    with B(2) have d0 and le: "remaining_burst_time s0 ! n \<le> 0" by simp_all
    from B(3) [OF le] IH(4) [OF \<open>d0\<close>] show "snd (rr_visit ps n (d0, s0)) = s" by simp
  qed
  have 5: "remaining_work (snd (rr_visit ps n (d0, s0))) \<le> remaining_work s"
    using B(5) IH(5) by linarith
  have 6: "\<not> fst (rr_visit ps n (d0, s0)) \<longrightarrow>
       remaining_work (snd (rr_visit ps n (d0, s0))) < remaining_work s"
  proof
    assume nd: "\<not> fst (rr_visit ps n (d0, s0))"
    show "remaining_work (snd (rr_visit ps n (d0, s0))) < remaining_work s"
    proof (cases d0)
      case True
      with nd B(2) have "0 < remaining_burst_time s0 ! n" by auto
      from B(6) [OF this] IH(5) show ?thesis by linarith
    next
      case False
      from IH(6) [OF this] B(5) show ?thesis by linarith
    qed
  qed
  show ?case
    unfolding step using 1 2 3 4 5 6 by blast
qed

lemma rr_sweep_props:
  assumes "length (remaining_burst_time s) = length ps"
  shows "length (remaining_burst_time (snd (rr_sweep ps s))) = length ps"
    and "fst (rr_sweep ps s) \<longleftrightarrow> (\<forall>j<length ps. remaining_burst_time s ! j \<le> 0)"
    and "fst (rr_sweep ps s) \<Longrightarrow> snd (rr_sweep ps s) = s"
    and "remaining_work (snd (rr_sweep ps s)) \<le> remaining_work s"
    and "\<not> fst (rr_sweep ps s) \<Longrightarrow> remaining_work (snd (rr_sweep ps s)) < remaining_work s"
  using sweep_prefix [OF assms, of "length ps"] by (simp_all add: rr_sweep_def)

lemma rr_loop_unfold:
  "rr_loop ps s = (if fst (rr_sweep ps s) then Some (snd (rr_sweep ps s))
                   else rr_loop ps (snd (rr_sweep ps s)))"
  by (subst rr_loop.simps) (simp split: prod.splits)

lemma rr_loop_terminates:
  assumes "length (remaining_burst_time s) = length ps"
  shows "\<exists>n. rr_loop ps s = Some (sweeps ps (Suc n) s) \<and>
             sweeps ps (Suc n) s = sweeps ps n s \<and>
             fst (rr_sweep ps (sweeps ps n s)) \<and>
             (\<forall>m<n. \<not> fst (rr_sweep ps (sweeps ps m s))) \<and>
             (\<forall>m<n. remaining_work (sweeps ps (Suc m) s) < remaining_work (sweeps ps m s)) \<and>
             (\<forall>m. length (remaining_burst_time (sweeps ps m s)) = length ps)"
  using assms
proof (induction "remaining_work s" arbitrary: s rule: less_induct)
  case less
  note P = rr_sweep_props [OF less.prems]
  show ?case
  proof (cases "fst (rr_sweep ps s)")
    case True
    have len: "length (remaining_burst_time (sweeps ps m s)) = length ps" for m
      by (induction m) (simp_all add: less.prems P(3) [OF True])
    have "rr_loop ps s = Some (sweeps ps (Suc 0) s)"
      using True by (subst rr_loop_unfold) simp
    moreover have "sweeps ps (Suc 0) s = sweeps ps 0 s"
      using P(3) [OF True] by simp
    ultimately show ?thesis
      using True len by (intro exI [of _ 0]) simp
  next
    case False
    let ?s' = "snd (rr_sweep ps s)"
    from less.hyps [OF P(5) [OF False] P(1)]
    obtain n where n: "rr_loop ps ?s' = Some (sweeps ps (Suc n) ?s')"
      "sweeps ps (Suc n) ?s' = sweeps ps n ?s'"
      "fst (rr_sweep ps (sweeps ps n ?s'))"
      "\<forall>m<n. \<not> fst (rr_sweep ps (sweeps ps m ?s'))"
      "\<forall>m<n. remaining_work (sweeps ps (Suc m) ?s') < remaining_work (sweeps ps m ?s')"
      "\<forall>m. length (remaining_burst_time (sweeps ps m ?s')) = length ps"
      by blast
    have 1: "rr_loop ps s = Some (sweeps ps (Suc (Suc n)) s)"
      using False n(1) by (subst rr_loop_unfold) simp
    have 2: "sweeps ps (Suc (Suc n)) s = sweeps ps (Suc n) s"
      using n(2) by simp
    have 3: "fst (rr_sweep ps (sweeps ps (Suc n) s))"
      using n(3) by simp
    have 4: "\<forall>m<Suc n. \<not> fst (rr_sweep ps (sweeps ps m s))"
    proof (intro allI impI)
      fix m assume "m < Suc n"
      then show "\<not> fst (rr_sweep ps (sweeps ps m s))"
        using False n(4) by (cases m) simp_all
    qed
    have 5: "\<forall>m<Suc n. remaining_work (sweeps ps (Suc m) s) < remaining_work (sweeps ps m s)"
    proof (intro allI impI)
      fix m assume "m < Suc n"
      then show "remaining_work (sweeps ps (Suc m) s) < remaining_work (sweeps ps m s)"
        using P(5) [OF False] n(5) by (cases m) simp_all
    qed
    have 6: "\<forall>m. length (remaining_burst_time (sweeps ps m s)) = length ps"
    proof
      fix m show "length (remaining_burst_time (sweeps ps m s)) = length ps"
        using less.prems n(6) by (cases m) simp_all
    qed
    show ?thesis
      using 1 2 3 4 5 6 by (intro exI [of _ "Suc n"]) blast
  qed
qed


section \<open>Round Robin: the invariant\<close>


lemma executed_total_snoc:
  "executed_total (sl @ [(i, d)]) j = executed_total sl j + (if j = i then d else 0)"
  by (simp add: executed_total_def)

lemma elapsed_at_completion_snoc:
  "elapsed_at_completion (sl @ [(i, d)]) j =
     (if j = i then sum_list (map snd sl) + d else elapsed_at_completion sl j)"
  by (simp add: elapsed_at_completion_def rev_map [symmetric])

lemma sum_list_int_update:
  "i < length xs \<Longrightarrow> sum_list (xs[i := v]) = sum_list xs - xs ! i + (v :: int)"
proof (induction xs arbitrary: i)
  case Nil
  then show ?case by simp
next
  case (Cons x xs)
  then show ?case by (cases i) simp_all
qed

lemma rr_inv_init:
  assumes "\<forall>p\<in>set ps. 1 \<le> burst_time p"
  shows "rr_inv ps (rr_init ps)"
proof -
  have pos: "0 < burst_time (ps ! j)" if "j < length ps" for j
    using assms that by (metis nth_mem less_le_trans zero_less_one)
  have "ps = [] \<or> (\<exists>j<length ps. 0 < burst_time (ps ! j))"
    using pos [of 0] by (cases ps) auto
  then show ?thesis
    using pos by (auto simp: rr_inv_def rr_init_def executed_total_def elapsed_at_completion_def
        order.strict_implies_order)
qed

lemma rr_inv_visit:
  assumes inv: "rr_inv ps s" and i: "i < length ps"
  shows "rr_inv ps (snd (rr_visit ps i (d, s)))"
proof (cases rule: rr_visit_cases [of s i])
  case skip
  then show ?thesis using inv by (simp add: rr_visit_skip)
next
  case quantum
  have Q: "0 < QUANTUM" by (simp add: QUANTUM_def)
  show ?thesis
    using inv i quantum Q
    unfolding rr_visit_quantum [OF quantum] rr_inv_def
    by (auto simp: nth_list_update sum_list_int_update executed_total_snoc
        elapsed_at_completion_snoc)
next
  case finish
  show ?thesis
    using inv i finish
    unfolding rr_visit_finish [OF finish] rr_inv_def
    by (auto simp: nth_list_update sum_list_int_update executed_total_snoc
        elapsed_at_completion_snoc)
qed



lemma rr_inv_fold:
  "rr_inv ps s \<Longrightarrow> n \<le> length ps \<Longrightarrow> rr_inv ps (snd (fold (rr_visit ps) [0..<n] (d, s)))"
proof (induction n)
  case 0
  then show ?case by simp
next
  case (Suc n)
  obtain d0 s0 where r: "fold (rr_visit ps) [0..<n] (d, s) = (d0, s0)"
    by (cases "fold (rr_visit ps) [0..<n] (d, s)")
  with Suc have "rr_inv ps s0" by simp
  then have "rr_inv ps (snd (rr_visit ps n (d0, s0)))"
    using Suc.prems(2) by (intro rr_inv_visit) simp_all
  then show ?case by (simp add: r)
qed

lemma rr_inv_sweep: "rr_inv ps s \<Longrightarrow> rr_inv ps (snd (rr_sweep ps s))"
  by (simp add: rr_sweep_def rr_inv_fold)

lemma rr_inv_sweeps: "rr_inv ps s \<Longrightarrow> rr_inv ps (sweeps ps m s)"
  by (induction m arbitrary: s) (simp_all add: rr_inv_sweep)

lemma rr_inv_work:
  assumes "rr_inv ps s"
  shows "int (remaining_work s) = sum_list (remaining_burst_time s)"
proof -
  have "\<forall>x\<in>set (remaining_burst_time s). 0 \<le> x"
    using assms by (auto simp: rr_inv_def in_set_conv_nth)
  then have "int (sum_list (map nat xs)) = sum_list xs"
    if "set xs \<subseteq> set (remaining_burst_time s)" for xs
    using that by (induction xs) auto
  then show ?thesis by (simp add: remaining_work_def)
qed



lemma rr_final:
  assumes "\<forall>p\<in>set ps. 1 \<le> burst_time p"
  obtains n where
    "rr_loop ps (rr_init ps) = Some (sweeps ps (Suc n) (rr_init ps))"
    "sweeps ps (Suc n) (rr_init ps) = sweeps ps n (rr_init ps)"
    "fst (rr_sweep ps (sweeps ps n (rr_init ps)))"
    "\<forall>m<n. \<not> fst (rr_sweep ps (sweeps ps m (rr_init ps)))"
    "\<forall>m<n. remaining_work (sweeps ps (Suc m) (rr_init ps))
              < remaining_work (sweeps ps m (rr_init ps))"
    "\<forall>i<length ps. remaining_burst_time (sweeps ps n (rr_init ps)) ! i = 0"
proof -
  have len: "length (remaining_burst_time (rr_init ps)) = length ps"
    by (simp add: rr_init_def)
  from rr_loop_terminates [OF len] obtain n where n:
    "rr_loop ps (rr_init ps) = Some (sweeps ps (Suc n) (rr_init ps))"
    "sweeps ps (Suc n) (rr_init ps) = sweeps ps n (rr_init ps)"
    "fst (rr_sweep ps (sweeps ps n (rr_init ps)))"
    "\<forall>m<n. \<not> fst (rr_sweep ps (sweeps ps m (rr_init ps)))"
    "\<forall>m<n. remaining_work (sweeps ps (Suc m) (rr_init ps))
              < remaining_work (sweeps ps m (rr_init ps))"
    "\<forall>m. length (remaining_burst_time (sweeps ps m (rr_init ps))) = length ps"
    by blast
  have inv: "rr_inv ps (sweeps ps n (rr_init ps))"
    using assms by (intro rr_inv_sweeps rr_inv_init)
  have "\<forall>i<length ps. remaining_burst_time (sweeps ps n (rr_init ps)) ! i \<le> 0"
    using n(3) rr_sweep_props(2) [of "sweeps ps n (rr_init ps)" ps] n(6) by simp
  moreover have "\<forall>i<length ps. 0 \<le> remaining_burst_time (sweeps ps n (rr_init ps)) ! i"
    using inv by (simp add: rr_inv_def)
  ultimately have zero: "\<forall>i<length ps. remaining_burst_time (sweeps ps n (rr_init ps)) ! i = 0"
    by (simp add: order_antisym)
  show ?thesis
    by (rule that [OF n(1) n(2) n(3) n(4) n(5) zero])
qed





lemma round_robin_Some:
  "rr_loop ps (rr_init ps) = Some s \<Longrightarrow>
   \<exists>r. round_robin ps = Some r \<and> rows r = ps \<and> waiting_times r = waiting_time s \<and>
       turnaround_times r = turnaround_loop ps (waiting_time s) \<and>
       avg_waiting_time r = fst (averages (length ps) (waiting_time s)
          (turnaround_loop ps (waiting_time s))) \<and>
       avg_turnaround_time r = snd (averages (length ps) (waiting_time s)
          (turnaround_loop ps (waiting_time s))) \<and>
       completion_times r = completion_time s \<and> executed r = slices s"
  by (simp add: round_robin_def Let_def split: prod.splits)

lemma scenario_D:
  "\<exists>r. round_robin [\<lparr>pid = 0, burst_time = 5, priority = pr\<rparr>] = Some r \<and>
       waiting_times r = [0] \<and> completion_times r = [5] \<and> avg_waiting_time r = Fin 0 \<and>
       executed r = [(0, 4), (0, 1)]"
proof -
  let ?ps = "[\<lparr>pid = 0, burst_time = 5, priority = pr\<rparr>]"
  let ?s1 = "\<lparr>time = 4, remaining_burst_time = [1], waiting_time = [0], completion_time = [0],
               slices = [(0, 4)]\<rparr>"
  let ?s2 = "\<lparr>time = 5, remaining_burst_time = [0], waiting_time = [0], completion_time = [5],
               slices = [(0, 4), (0, 1)]\<rparr>"
  have 1: "rr_sweep ?ps (rr_init ?ps) = (False, ?s1)"
    by (simp add: rr_sweep_def rr_visit_def rr_init_def QUANTUM_def)
  have 2: "rr_sweep ?ps ?s1 = (False, ?s2)"
    by (simp add: rr_sweep_def rr_visit_def QUANTUM_def)
  have 3: "rr_sweep ?ps ?s2 = (True, ?s2)"
    by (simp add: rr_sweep_def rr_visit_def QUANTUM_def)
  have "rr_loop ?ps (rr_init ?ps) = Some ?s2"
    by (simp add: rr_loop_unfold [of ?ps "rr_init ?ps"] rr_loop_unfold [of ?ps ?s1]
        rr_loop_unfold [of ?ps ?s2] 1 2 3)
  from round_robin_Some [OF this] show ?thesis
    by (auto simp: averages_def sum_loop_def turnaround_loop_def)
qed


section \<open>Round Robin: termination\<close>

text \<open>
  C7. For a batch whose bursts are all at least 1, the loop returns: there is an \<open>n\<close> such
  that it stops after sweep \<open>n + 1\<close>, the first sweep that ends with \<open>done\<close> true, which
  it does because no remaining burst is nonzero when it starts; every earlier sweep
  starts with a nonzero remaining burst, ends with \<open>done\<close> false and strictly decreases
  the sum of the remaining bursts.
\<close>

theorem round_robin_terminates:
  assumes "\<forall>p\<in>set processes. 1 \<le> burst_time p"
  shows "\<exists>n. rr_loop processes (rr_init processes)
               = Some (sweeps processes (Suc n) (rr_init processes)) \<and>
             fst (rr_sweep processes (sweeps processes n (rr_init processes))) \<and>
             (\<forall>i<length processes.
                remaining_burst_time (sweeps processes n (rr_init processes)) ! i = 0) \<and>
             (\<forall>m<n. \<not> fst (rr_sweep processes (sweeps processes m (rr_init processes))) \<and>
                (\<exists>i<length processes.
                   remaining_burst_time (sweeps processes m (rr_init processes)) ! i \<noteq> 0) \<and>
                sum_list (remaining_burst_time (sweeps processes (Suc m) (rr_init processes)))
                  < sum_list (remaining_burst_time (sweeps processes m (rr_init processes))))"
proof -
  obtain n where n:
    "rr_loop processes (rr_init processes) = Some (sweeps processes (Suc n) (rr_init processes))"
    "fst (rr_sweep processes (sweeps processes n (rr_init processes)))"
    "\<forall>m<n. \<not> fst (rr_sweep processes (sweeps processes m (rr_init processes)))"
    "\<forall>m<n. remaining_work (sweeps processes (Suc m) (rr_init processes))
              < remaining_work (sweeps processes m (rr_init processes))"
    "\<forall>i<length processes. remaining_burst_time (sweeps processes n (rr_init processes)) ! i = 0"
    using rr_final [OF assms] .
  have inv: "rr_inv processes (sweeps processes m (rr_init processes))" for m
    using assms by (intro rr_inv_sweeps rr_inv_init)
  have len: "length (remaining_burst_time (sweeps processes m (rr_init processes)))
      = length processes" for m
    using inv [of m] by (simp add: rr_inv_def)
  have step: "\<not> fst (rr_sweep processes (sweeps processes m (rr_init processes))) \<and>
      (\<exists>i<length processes.
         remaining_burst_time (sweeps processes m (rr_init processes)) ! i \<noteq> 0) \<and>
      sum_list (remaining_burst_time (sweeps processes (Suc m) (rr_init processes)))
        < sum_list (remaining_burst_time (sweeps processes m (rr_init processes)))"
    if "m < n" for m
  proof -
    from n(3) that have nd: "\<not> fst (rr_sweep processes (sweeps processes m (rr_init processes)))"
      by simp
    then have "\<exists>i<length processes.
         \<not> remaining_burst_time (sweeps processes m (rr_init processes)) ! i \<le> 0"
      using rr_sweep_props(2) [OF len [of m]] by simp
    then obtain i where "i < length processes"
      "\<not> remaining_burst_time (sweeps processes m (rr_init processes)) ! i \<le> 0"
      by blast
    then have "i < length processes \<and>
      remaining_burst_time (sweeps processes m (rr_init processes)) ! i \<noteq> 0"
      by simp
    then have "\<exists>i<length processes.
         remaining_burst_time (sweeps processes m (rr_init processes)) ! i \<noteq> 0"
      by (rule exI)
    moreover have "int (remaining_work (sweeps processes (Suc m) (rr_init processes)))
        < int (remaining_work (sweeps processes m (rr_init processes)))"
      using n(4) that by simp
    then have "sum_list (remaining_burst_time (sweeps processes (Suc m) (rr_init processes)))
        < sum_list (remaining_burst_time (sweeps processes m (rr_init processes)))"
      unfolding rr_inv_work [OF inv [of "Suc m"]] rr_inv_work [OF inv [of m]] .
    ultimately show ?thesis using nd by (intro conjI)
  qed
  then have all: "\<forall>m<n. \<not> fst (rr_sweep processes (sweeps processes m (rr_init processes))) \<and>
      (\<exists>i<length processes.
         remaining_burst_time (sweeps processes m (rr_init processes)) ! i \<noteq> 0) \<and>
      sum_list (remaining_burst_time (sweeps processes (Suc m) (rr_init processes)))
        < sum_list (remaining_burst_time (sweeps processes m (rr_init processes)))"
    by (intro allI impI)
  show ?thesis
    by (intro exI [of _ n] conjI n(1) n(2) n(5) all)
qed


theorem round_robin_terminates_witness:
  "(\<exists>n. rr_loop scenario_batch (rr_init scenario_batch)
         = Some (sweeps scenario_batch (Suc n) (rr_init scenario_batch))) \<and>
   map remaining_burst_time
     [sweeps scenario_batch 0 (rr_init scenario_batch),
      sweeps scenario_batch 1 (rr_init scenario_batch),
      sweeps scenario_batch 2 (rr_init scenario_batch)]
   = [[5, 3, 8], [1, 0, 4], [0, 0, 0]] \<and>
   map_option remaining_burst_time (rr_loop scenario_batch (rr_init scenario_batch))
     = Some [0, 0, 0]"
proof -
  have h: "\<forall>p\<in>set scenario_batch. 1 \<le> burst_time p"
    by (simp add: scenario_batch_def)
  have a: "map remaining_burst_time
     [sweeps scenario_batch 0 (rr_init scenario_batch),
      sweeps scenario_batch 1 (rr_init scenario_batch),
      sweeps scenario_batch 2 (rr_init scenario_batch)]
   = [[5, 3, 8], [1, 0, 4], [0, 0, 0]]"
    by code_simp
  have b: "map_option remaining_burst_time (rr_loop scenario_batch (rr_init scenario_batch))
     = Some [0, 0, 0]"
    by code_simp
  from round_robin_terminates [OF h]
  have "\<exists>n. rr_loop scenario_batch (rr_init scenario_batch)
         = Some (sweeps scenario_batch (Suc n) (rr_init scenario_batch))"
    by blast
  with a b show ?thesis by simp
qed


section \<open>Round Robin: completion and waiting times\<close>





section \<open>Multilevel queue: the partition\<close>


lemma rand_queue_number: "nat (int r smod NUM_QUEUES) = r mod 3"
  by (simp add: smod_int_alt_def NUM_QUEUES_def sgn_if nat_mod_distrib)

lemma distribute_fold:
  "length qs = 3 \<Longrightarrow> k < 3 \<Longrightarrow>
   fold (\<lambda>(k, process) queues.
           (let queue_number = nat (int (rnd k) smod NUM_QUEUES)
            in queues[queue_number := queues ! queue_number @ [process]]))
     (enumerate n ps) qs ! k
   = qs ! k @ map snd (filter (\<lambda>(i, p). rnd i mod 3 = k) (enumerate n ps))"
proof (induction ps arbitrary: n qs)
  case Nil
  then show ?case by simp
next
  case (Cons p ps)
  have "rnd n mod 3 < 3" by simp
  then show ?case
    using Cons.prems Cons.IH [of "qs[rnd n mod 3 := qs ! (rnd n mod 3) @ [p]]" "Suc n"]
    by (auto simp: rand_queue_number nth_list_update Let_def)
qed

lemma distribute_length: "length (distribute rnd ps) = 3"
proof -
  have "length (fold (\<lambda>(k, process) queues.
           (let queue_number = nat (int (rnd k) smod NUM_QUEUES)
            in queues[queue_number := queues ! queue_number @ [process]])) xs qs) = length qs"
    for xs :: "(nat \<times> Process) list" and qs
    by (induction xs arbitrary: qs) (simp_all add: split_def Let_def)
  then show ?thesis
    by (simp add: distribute_def NUM_QUEUES_def)
qed

lemma distribute_nth:
  "k < 3 \<Longrightarrow>
   distribute rnd ps ! k = map snd (filter (\<lambda>(i, p). rnd i mod 3 = k) (enumerate 0 ps))"
  using distribute_fold [of "replicate 3 []" k rnd 0 ps]
  by (simp add: distribute_def NUM_QUEUES_def)

lemma three_way_length:
  "length (filter (\<lambda>(i, p). (rnd :: nat \<Rightarrow> nat) i mod 3 = 0) xs) +
   length (filter (\<lambda>(i, p). rnd i mod 3 = 1) xs) +
   length (filter (\<lambda>(i, p). rnd i mod 3 = 2) xs) = length (xs :: (nat \<times> Process) list)"
proof (induction xs)
  case Nil
  then show ?case by simp
next
  case (Cons x xs)
  have "rnd (fst x) mod 3 = 0 \<or> rnd (fst x) mod 3 = 1 \<or> rnd (fst x) mod 3 = 2"
    by linarith
  then show ?case using Cons by (auto simp: split_def)
qed

lemma three_way_mset:
  "mset (map snd (filter (\<lambda>(i, p). (rnd :: nat \<Rightarrow> nat) i mod 3 = 0) xs)) +
   mset (map snd (filter (\<lambda>(i, p). rnd i mod 3 = 1) xs)) +
   mset (map snd (filter (\<lambda>(i, p). rnd i mod 3 = 2) xs))
   = mset (map snd (xs :: (nat \<times> Process) list))"
proof (induction xs)
  case Nil
  then show ?case by simp
next
  case (Cons x xs)
  have "rnd (fst x) mod 3 = 0 \<or> rnd (fst x) mod 3 = 1 \<or> rnd (fst x) mod 3 = 2"
    by linarith
  then show ?case using Cons by (auto simp: split_def)
qed

text \<open>
  C8. For every batch and every sequence of values that \<^verbatim>\<open>rand()\<close> may return, the
  coordinator fills three queues whose sizes add up to the size of the batch and which
  together hold the processes of the batch, each as often as the batch does; queue \<open>k\<close>
  holds, in arrival order, the processes at the positions \<open>i\<close> whose draw has
  remainder \<open>k\<close>, so that every position is in the one queue its draw names.
\<close>

theorem every_process_in_one_queue:
  "length (distribute rnd processes) = 3 \<and>
   length (distribute rnd processes ! 0) + length (distribute rnd processes ! 1) +
     length (distribute rnd processes ! 2) = length processes \<and>
   mset (distribute rnd processes ! 0) + mset (distribute rnd processes ! 1) +
     mset (distribute rnd processes ! 2) = mset processes \<and>
   (\<forall>k<3. distribute rnd processes ! k
      = map snd (filter (\<lambda>(i, p). rnd i mod 3 = k) (enumerate 0 processes)))"
proof -
  have "length (distribute rnd processes ! 0) + length (distribute rnd processes ! 1) +
     length (distribute rnd processes ! 2) = length processes"
    using three_way_length [of rnd "enumerate 0 processes"] by (simp add: distribute_nth)
  moreover have "mset (distribute rnd processes ! 0) + mset (distribute rnd processes ! 1) +
     mset (distribute rnd processes ! 2) = mset processes"
    using three_way_mset [of rnd "enumerate 0 processes"]
    by (simp only: distribute_nth map_snd_enumerate zero_less_numeral one_less_numeral_iff
        semiring_norm)
  ultimately show ?thesis
    by (simp add: distribute_length distribute_nth)
qed

theorem every_process_in_one_queue_witness:
  "distribute (\<lambda>k. 2 * k + 1) scenario_batch
     = [[\<lparr>pid = 1, burst_time = 3, priority = 2\<rparr>],
        [\<lparr>pid = 0, burst_time = 5, priority = 1\<rparr>],
        [\<lparr>pid = 2, burst_time = 8, priority = 1\<rparr>]] \<and>
   distribute (\<lambda>k. 2 * k + 1) scenario_batch ! 2
     = map snd (filter (\<lambda>(i, p). (2 * i + 1) mod 3 = 2) (enumerate 0 scenario_batch))"
proof -
  have "(2 :: nat) < 3" by simp
  with every_process_in_one_queue [of "\<lambda>k. 2 * k + 1" scenario_batch]
  have "distribute (\<lambda>k. 2 * k + 1) scenario_batch ! 2
     = map snd (filter (\<lambda>(i, p). (2 * i + 1) mod 3 = 2) (enumerate 0 scenario_batch))"
    by blast
  moreover have "distribute (\<lambda>k. 2 * k + 1) scenario_batch
     = [[\<lparr>pid = 1, burst_time = 3, priority = 2\<rparr>],
        [\<lparr>pid = 0, burst_time = 5, priority = 1\<rparr>],
        [\<lparr>pid = 2, burst_time = 8, priority = 1\<rparr>]]"
    by code_simp
  ultimately show ?thesis by simp
qed


section \<open>Multilevel queue: the composition of the averages\<close>


lemma total_burst_time_eq:
  "total_burst_time ps = real_of_int (sum_list (map burst_time ps))"
proof -
  have "fold (\<lambda>process total. total + real_of_int (burst_time process)) ps acc
      = acc + real_of_int (sum_list (map burst_time ps))" for acc
    by (induction ps arbitrary: acc) simp_all
  then show ?thesis by (simp add: total_burst_time_def)
qed

lemma round_robin_returns:
  assumes "ps \<noteq> []"
  shows "\<exists>rr a. round_robin ps = Some rr \<and> avg_waiting_time rr = Fin a"
proof -
  have "length (remaining_burst_time (rr_init ps)) = length ps"
    by (simp add: rr_init_def)
  from rr_loop_terminates [OF this] obtain s where "rr_loop ps (rr_init ps) = Some s"
    by blast
  from round_robin_Some [OF this] assms show ?thesis
    by (auto simp: averages_def split: prod.splits)
qed

lemma fcfs_avg_Fin:
  "ps \<noteq> [] \<Longrightarrow> \<exists>a. avg_waiting_time (first_come_first_served ps) = Fin a"
  by (simp add: first_come_first_served_def schedule_metrics_avgs)

lemma sjf_avg_Fin:
  assumes "ps \<noteq> []" "std_sort_post compareByBurstTime ps (std_sort compareByBurstTime ps)"
  shows "\<exists>a. avg_waiting_time (shortest_job_first std_sort ps) = Fin a"
  using std_sort_post_nonempty [OF assms(2) assms(1)]
  by (simp add: shortest_job_first_def schedule_metrics_avgs)

lemma multilevel_example:
  "\<exists>r. multilevel_queue_scheduling std_sort (\<lambda>k. if k = 0 then 0 else 1) scenario_batch
           = Some r \<and>
       queue_sizes r = [1, 2, 0] \<and>
       avg_waiting_time_0 r = Fin 0 \<and> avg_waiting_time_1 r = Fin (13 / 2) \<and>
       avg_waiting_time_2 r = Fin 0 \<and>
       overall_avg_waiting_time r = Fin (13 / 6) \<and>
       (1 * 0 + 2 * (13 / 2) + 0 * 0) / (1 + 2 + 0) \<noteq> (13 / 6 :: real)"
proof -
  have q: "distribute (\<lambda>k. if k = 0 then 0 else 1) scenario_batch
     = [[\<lparr>pid = 0, burst_time = 5, priority = 1\<rparr>],
        [\<lparr>pid = 1, burst_time = 3, priority = 2\<rparr>, \<lparr>pid = 2, burst_time = 8, priority = 1\<rparr>],
        []]"
    by code_simp
  obtain rr where rr: "round_robin [\<lparr>pid = 0, burst_time = 5, priority = 1\<rparr>] = Some rr"
    "avg_waiting_time rr = Fin 0"
    using scenario_D [of 1] by blast
  have f: "avg_waiting_time (first_come_first_served
      [\<lparr>pid = 1, burst_time = 3, priority = 2\<rparr>, \<lparr>pid = 2, burst_time = 8, priority = 1\<rparr>])
      = Fin (3 / 2)"
    by (simp add: first_come_first_served_def schedule_metrics_avgs waiting_loop_def)
  have t: "total_burst_time [\<lparr>pid = 0, burst_time = 5, priority = 1\<rparr>] = 5"
    by (simp add: total_burst_time_def)
  show ?thesis
    by (simp add: multilevel_queue_scheduling_def q rr f t NUM_QUEUES_def Let_def
        numeral_2_eq_2)
qed

text \<open>
  C4. For every outcome of the random assignment (and any library sort that keeps its
  contract on queue 2), the coordinator returns; an empty queue has the average 0; the
  average reported for a non-empty queue 1 is its FCFS average plus the total burst
  time of queue 0; the one for a non-empty queue 2 is its SJF average plus the total
  burst times of queues 0 and 1; the one for a non-empty queue 0 is its Round Robin
  average; and the overall average is the sum of the three divided by 3. That is not
  the mean weighted by queue size: with the scenario batch split into queue 0 = [id0]
  and queue 1 = [id1, id2] the three averages are 0, 13/2 and 0, the overall average
  is 13/6, and the weighted mean would be 13/3.
\<close>

theorem multilevel_composition:
  assumes "std_sort_post compareByBurstTime (distribute rnd processes ! 2)
             (std_sort compareByBurstTime (distribute rnd processes ! 2))"
  shows "(\<exists>r. multilevel_queue_scheduling std_sort rnd processes = Some r \<and>
      queue_sizes r = map length (distribute rnd processes) \<and>
      (distribute rnd processes ! 0 = [] \<longrightarrow> avg_waiting_time_0 r = Fin 0) \<and>
      (distribute rnd processes ! 0 \<noteq> [] \<longrightarrow>
         (\<exists>rr a. round_robin (distribute rnd processes ! 0) = Some rr \<and>
            avg_waiting_time rr = Fin a \<and> avg_waiting_time_0 r = Fin a)) \<and>
      (distribute rnd processes ! 1 = [] \<longrightarrow> avg_waiting_time_1 r = Fin 0) \<and>
      (distribute rnd processes ! 1 \<noteq> [] \<longrightarrow>
         (\<exists>a. avg_waiting_time (first_come_first_served (distribute rnd processes ! 1)) = Fin a \<and>
            avg_waiting_time_1 r
              = Fin (a + real_of_int (sum_list (map burst_time (distribute rnd processes ! 0)))))) \<and>
      (distribute rnd processes ! 2 = [] \<longrightarrow> avg_waiting_time_2 r = Fin 0) \<and>
      (distribute rnd processes ! 2 \<noteq> [] \<longrightarrow>
         (\<exists>a. avg_waiting_time (shortest_job_first std_sort (distribute rnd processes ! 2)) = Fin a \<and>
            avg_waiting_time_2 r
              = Fin (a + real_of_int (sum_list (map burst_time (distribute rnd processes ! 0))
                                    + sum_list (map burst_time (distribute rnd processes ! 1)))))) \<and>
      (\<exists>a0 a1 a2. avg_waiting_time_0 r = Fin a0 \<and> avg_waiting_time_1 r = Fin a1 \<and>
         avg_waiting_time_2 r = Fin a2 \<and>
         overall_avg_waiting_time r = Fin ((a0 + a1 + a2) / 3))) \<and>
    (\<exists>r. multilevel_queue_scheduling std_sort (\<lambda>k. if k = 0 then 0 else 1) scenario_batch
           = Some r \<and>
       queue_sizes r = [1, 2, 0] \<and>
       avg_waiting_time_0 r = Fin 0 \<and> avg_waiting_time_1 r = Fin (13 / 2) \<and>
       avg_waiting_time_2 r = Fin 0 \<and>
       overall_avg_waiting_time r = Fin (13 / 6) \<and>
       (1 * 0 + 2 * (13 / 2) + 0 * 0) / (1 + 2 + 0) \<noteq> (13 / 6 :: real))"
proof -
  let ?q0 = "distribute rnd processes ! 0"
  let ?q1 = "distribute rnd processes ! 1"
  let ?q2 = "distribute rnd processes ! 2"
  define a1 where "a1 = (if ?q1 \<noteq> []
       then dadd (avg_waiting_time (first_come_first_served ?q1)) (Fin (total_burst_time ?q0))
       else Fin 0)"
  define a2 where "a2 = (if ?q2 \<noteq> []
       then dadd (avg_waiting_time (shortest_job_first std_sort ?q2))
              (Fin (total_burst_time ?q0 + total_burst_time ?q1))
       else Fin 0)"
  obtain x0 where x0: "(if ?q0 \<noteq> [] then map_option avg_waiting_time (round_robin ?q0)
       else Some (Fin 0)) = Some (Fin x0)"
    and rr: "?q0 \<noteq> [] \<longrightarrow> (\<exists>rr. round_robin ?q0 = Some rr \<and> avg_waiting_time rr = Fin x0)"
    and z0: "?q0 = [] \<longrightarrow> x0 = 0"
  proof (cases "?q0 = []")
    case True
    then show ?thesis using that [of 0] by simp
  next
    case False
    from round_robin_returns [OF this] obtain rr a
      where "round_robin ?q0 = Some rr" "avg_waiting_time rr = Fin a" by blast
    then show ?thesis using that [of a] False by simp
  qed
  obtain x1 where x1: "a1 = Fin x1"
    and f1: "?q1 \<noteq> [] \<longrightarrow> (\<exists>a. avg_waiting_time (first_come_first_served ?q1) = Fin a \<and>
        x1 = a + real_of_int (sum_list (map burst_time ?q0)))"
    and z1: "?q1 = [] \<longrightarrow> x1 = 0"
  proof (cases "?q1 = []")
    case True
    then show ?thesis using that [of 0] by (simp add: a1_def)
  next
    case False
    from fcfs_avg_Fin [OF this] obtain a
      where a: "avg_waiting_time (first_come_first_served ?q1) = Fin a" by blast
    show ?thesis
      using that [of "a + real_of_int (sum_list (map burst_time ?q0))"] False a
      by (simp add: a1_def total_burst_time_eq)
  qed
  obtain x2 where x2: "a2 = Fin x2"
    and f2: "?q2 \<noteq> [] \<longrightarrow> (\<exists>a. avg_waiting_time (shortest_job_first std_sort ?q2) = Fin a \<and>
        x2 = a + real_of_int (sum_list (map burst_time ?q0) + sum_list (map burst_time ?q1)))"
    and z2: "?q2 = [] \<longrightarrow> x2 = 0"
  proof (cases "?q2 = []")
    case True
    then show ?thesis using that [of 0] by (simp add: a2_def)
  next
    case False
    from sjf_avg_Fin [of ?q2 std_sort, OF this assms] obtain a
      where a: "avg_waiting_time (shortest_job_first std_sort ?q2) = Fin a" by blast
    show ?thesis
      using that [of "a + real_of_int (sum_list (map burst_time ?q0)
          + sum_list (map burst_time ?q1))"] False a
      by (simp add: a2_def total_burst_time_eq)
  qed
  let ?r = "\<lparr>queue_sizes = map length (distribute rnd processes),
      avg_waiting_time_0 = Fin x0, avg_waiting_time_1 = Fin x1, avg_waiting_time_2 = Fin x2,
      overall_avg_waiting_time = Fin ((x0 + x1 + x2) / 3)\<rparr>"
  have "multilevel_queue_scheduling std_sort rnd processes = Some ?r"
    unfolding multilevel_queue_scheduling_def Let_def x0 a1_def [symmetric] a2_def [symmetric]
    by (simp add: x1 x2 NUM_QUEUES_def)
  moreover have "distribute rnd processes ! 0 \<noteq> [] \<longrightarrow>
         (\<exists>rr a. round_robin (distribute rnd processes ! 0) = Some rr \<and>
            avg_waiting_time rr = Fin a \<and> avg_waiting_time_0 ?r = Fin a)"
    using rr by auto
  moreover have "distribute rnd processes ! 1 \<noteq> [] \<longrightarrow>
         (\<exists>a. avg_waiting_time (first_come_first_served (distribute rnd processes ! 1)) = Fin a \<and>
            avg_waiting_time_1 ?r
              = Fin (a + real_of_int (sum_list (map burst_time (distribute rnd processes ! 0)))))"
    using f1 by auto
  moreover have "distribute rnd processes ! 2 \<noteq> [] \<longrightarrow>
         (\<exists>a. avg_waiting_time (shortest_job_first std_sort (distribute rnd processes ! 2)) = Fin a \<and>
            avg_waiting_time_2 ?r
              = Fin (a + real_of_int (sum_list (map burst_time (distribute rnd processes ! 0))
                                    + sum_list (map burst_time (distribute rnd processes ! 1)))))"
    using f2 by auto
  moreover have "\<exists>a0 a1 a2. avg_waiting_time_0 ?r = Fin a0 \<and> avg_waiting_time_1 ?r = Fin a1 \<and>
         avg_waiting_time_2 ?r = Fin a2 \<and>
         overall_avg_waiting_time ?r = Fin ((a0 + a1 + a2) / 3)"
    by simp
  ultimately have general: "\<exists>r. multilevel_queue_scheduling std_sort rnd processes = Some r \<and>
      queue_sizes r = map length (distribute rnd processes) \<and>
      (distribute rnd processes ! 0 = [] \<longrightarrow> avg_waiting_time_0 r = Fin 0) \<and>
      (distribute rnd processes ! 0 \<noteq> [] \<longrightarrow>
         (\<exists>rr a. round_robin (distribute rnd processes ! 0) = Some rr \<and>
            avg_waiting_time rr = Fin a \<and> avg_waiting_time_0 r = Fin a)) \<and>
      (distribute rnd processes ! 1 = [] \<longrightarrow> avg_waiting_time_1 r = Fin 0) \<and>
      (distribute rnd processes ! 1 \<noteq> [] \<longrightarrow>
         (\<exists>a. avg_waiting_time (first_come_first_served (distribute rnd processes ! 1)) = Fin a \<and>
            avg_waiting_time_1 r
              = Fin (a + real_of_int (sum_list (map burst_time (distribute rnd processes ! 0)))))) \<and>
      (distribute rnd processes ! 2 = [] \<longrightarrow> avg_waiting_time_2 r = Fin 0) \<and>
      (distribute rnd processes ! 2 \<noteq> [] \<longrightarrow>
         (\<exists>a. avg_waiting_time (shortest_job_first std_sort (distribute rnd processes ! 2)) = Fin a \<and>
            avg_waiting_time_2 r
              = Fin (a + real_of_int (sum_list (map burst_time (distribute rnd processes ! 0))
                                    + sum_list (map burst_time (distribute rnd processes ! 1)))))) \<and>
      (\<exists>a0 a1 a2. avg_waiting_time_0 r = Fin a0 \<and> avg_waiting_time_1 r = Fin a1 \<and>
         avg_waiting_time_2 r = Fin a2 \<and>
         overall_avg_waiting_time r = Fin ((a0 + a1 + a2) / 3))"
    using z0 z1 z2 by (intro exI [of _ ?r] conjI) simp_all
  show ?thesis
    using general multilevel_example [of std_sort] by (intro conjI)
qed

theorem multilevel_composition_witness:
  "map_option overall_avg_waiting_time
     (multilevel_queue_scheduling insertion_sort_behind (\<lambda>k. 2 * k + 1) scenario_batch)
     = Some (Fin (11 / 3)) \<and>
   (\<exists>r a. multilevel_queue_scheduling insertion_sort_behind (\<lambda>k. 2 * k + 1) scenario_batch
        = Some r \<and>
      avg_waiting_time
        (shortest_job_first insertion_sort_behind (distribute (\<lambda>k. 2 * k + 1) scenario_batch ! 2))
        = Fin a \<and>
      avg_waiting_time_2 r = Fin (a + 8))"
proof -
  have q: "distribute (\<lambda>k. 2 * k + 1) scenario_batch
     = [[\<lparr>pid = 1, burst_time = 3, priority = 2\<rparr>],
        [\<lparr>pid = 0, burst_time = 5, priority = 1\<rparr>],
        [\<lparr>pid = 2, burst_time = 8, priority = 1\<rparr>]]"
    by code_simp
  have h: "std_sort_post compareByBurstTime (distribute (\<lambda>k. 2 * k + 1) scenario_batch ! 2)
      (insertion_sort_behind compareByBurstTime (distribute (\<lambda>k. 2 * k + 1) scenario_batch ! 2))"
    unfolding q by (simp add: std_sort_post_def insertion_sort_behind_def)
  have a: "map_option overall_avg_waiting_time
     (multilevel_queue_scheduling insertion_sort_behind (\<lambda>k. 2 * k + 1) scenario_batch)
     = Some (Fin (11 / 3))"
    by code_simp
  from multilevel_composition [of "\<lambda>k. 2 * k + 1" scenario_batch insertion_sort_behind, OF h,
      unfolded q]
  have "\<exists>r a. multilevel_queue_scheduling insertion_sort_behind (\<lambda>k. 2 * k + 1) scenario_batch
        = Some r \<and>
      avg_waiting_time
        (shortest_job_first insertion_sort_behind (distribute (\<lambda>k. 2 * k + 1) scenario_batch ! 2))
        = Fin a \<and>
      avg_waiting_time_2 r = Fin (a + 8)"
    unfolding q by auto
  with a show ?thesis by simp
qed


section \<open>The empty batch\<close>


text \<open>
  C5. What the code does on the empty batch: the four strategies divide the sum 0.0 by
  \<open>N = 0\<close>, which gives NaN for both averages; the multilevel coordinator skips its
  three empty queues and returns 0.
\<close>

theorem empty_batch_results:
  "averages 0 [] [] = (ddiv (Fin 0) 0, ddiv (Fin 0) 0) \<and> ddiv (Fin 0) 0 = NaN \<and>
   avg_waiting_time (first_come_first_served []) = NaN \<and>
   avg_turnaround_time (first_come_first_served []) = NaN \<and>
   avg_waiting_time (shortest_job_first insertion_sort_behind []) = NaN \<and>
   avg_waiting_time (priority_scheduling insertion_sort_behind []) = NaN \<and>
   map_option avg_waiting_time (round_robin []) = Some NaN \<and>
   map_option overall_avg_waiting_time (multilevel_queue_scheduling std_sort rnd []) = Some (Fin 0)"
proof -
  have a: "averages 0 [] [] = (ddiv (Fin 0) 0, ddiv (Fin 0) 0)"
    by (simp add: averages_def sum_loop_def)
  have m: "schedule_metrics [] = \<lparr>rows = [], waiting_times = [], turnaround_times = [],
      avg_waiting_time = NaN, avg_turnaround_time = NaN\<rparr>"
    by (simp add: schedule_metrics_def waiting_loop_def turnaround_loop_def averages_empty)
  have s: "rr_sweep [] (rr_init []) = (True, rr_init [])"
    by (simp add: rr_sweep_def)
  have "rr_loop [] (rr_init []) = Some (rr_init [])"
    by (subst rr_loop_unfold) (simp add: s)
  then have rr: "map_option avg_waiting_time (round_robin []) = Some NaN"
    by (simp add: round_robin_def rr_init_def averages_empty)
  have q: "distribute rnd [] = [[], [], []]"
    by (simp add: distribute_def NUM_QUEUES_def numeral_3_eq_3)
  have ml: "map_option overall_avg_waiting_time (multilevel_queue_scheduling std_sort rnd [])
      = Some (Fin 0)"
    by (simp add: multilevel_queue_scheduling_def q NUM_QUEUES_def Let_def)
  show ?thesis
    using a rr ml
    by (simp add: first_come_first_served_def shortest_job_first_def priority_scheduling_def
        insertion_sort_behind_def m)
qed


section \<open>The configuration\<close>








section \<open>Ranges of the computed values\<close>

text \<open>
  For a batch whose bursts lie within the configured range, the waiting and turnaround
  times of the non-preemptive strategies and the clock and completion times of Round
  Robin stay between 0 and \<open>MAX_BURST_TIME * N\<close> (200 for the ten processes that
  \<^verbatim>\<open>main\<close> generates): such executions are far from the bounds of \<^verbatim>\<open>int\<close>.
\<close>


lemma sum_list_bounds:
  assumes "\<forall>x\<in>set xs. 0 \<le> x \<and> x \<le> (c :: int)"
  shows "0 \<le> sum_list (take i xs)" and "sum_list (take i xs) \<le> sum_list xs"
    and "sum_list xs \<le> c * int (length xs)"
proof -
  have nn: "0 \<le> sum_list ys" if "set ys \<subseteq> set xs" for ys
    using that assms by (induction ys) auto
  show "0 \<le> sum_list (take i xs)"
    by (rule nn) (rule set_take_subset)
  have "sum_list xs = sum_list (take i xs) + sum_list (drop i xs)"
    by (metis append_take_drop_id sum_list_append)
  moreover have "0 \<le> sum_list (drop i xs)"
    by (rule nn) (rule set_drop_subset)
  ultimately show "sum_list (take i xs) \<le> sum_list xs" by simp
  show "sum_list xs \<le> c * int (length xs)"
    using assms by (induction xs) (auto simp: algebra_simps)
qed

lemma metrics_within_range:
  assumes "\<forall>p\<in>set ps. MIN_BURST_TIME \<le> burst_time p \<and> burst_time p \<le> MAX_BURST_TIME"
    and "i < length ps"
  shows "0 \<le> waiting_times (schedule_metrics ps) ! i"
    and "waiting_times (schedule_metrics ps) ! i \<le> turnaround_times (schedule_metrics ps) ! i"
    and "turnaround_times (schedule_metrics ps) ! i \<le> MAX_BURST_TIME * int (length ps)"
proof -
  have b: "\<forall>x\<in>set (map burst_time ps). 0 \<le> x \<and> x \<le> MAX_BURST_TIME"
    using assms(1) by (auto simp: MIN_BURST_TIME_def)
  note S = sum_list_bounds [OF b]
  have w: "waiting_times (schedule_metrics ps) ! i = sum_list (take i (map burst_time ps))"
    using assms(2) by (simp add: schedule_metrics_fields nth_waiting_loop take_map)
  have t: "turnaround_times (schedule_metrics ps) ! i = sum_list (take (Suc i) (map burst_time ps))"
    using assms(2)
    by (simp add: schedule_metrics_fields nth_waiting_loop nth_turnaround_loop take_map
        take_Suc_conv_app_nth)
  show "0 \<le> waiting_times (schedule_metrics ps) ! i"
    unfolding w by (rule S(1))
  show "waiting_times (schedule_metrics ps) ! i \<le> turnaround_times (schedule_metrics ps) ! i"
    using assms b by (simp add: schedule_metrics_fields nth_turnaround_loop MIN_BURST_TIME_def)
  show "turnaround_times (schedule_metrics ps) ! i \<le> MAX_BURST_TIME * int (length ps)"
    unfolding t using S(2) [of "Suc i"] S(3) by simp
qed

lemma rr_clock_within_range:
  assumes "\<forall>p\<in>set ps. MIN_BURST_TIME \<le> burst_time p \<and> burst_time p \<le> MAX_BURST_TIME"
    and "rr_inv ps s"
  shows "0 \<le> time s" and "time s \<le> MAX_BURST_TIME * int (length ps)"
    and "\<forall>j<length ps. completion_time s ! j \<le> MAX_BURST_TIME * int (length ps)"
proof -
  have b: "\<forall>x\<in>set (map burst_time ps). 0 \<le> x \<and> x \<le> MAX_BURST_TIME"
    using assms(1) by (auto simp: MIN_BURST_TIME_def)
  have r: "\<forall>x\<in>set (remaining_burst_time s). 0 \<le> x"
    using assms(2) by (auto simp: rr_inv_def in_set_conv_nth)
  have "\<forall>x\<in>set (map snd (slices s)). 0 \<le> x \<and> x \<le> QUANTUM"
    using assms(2) by (auto simp: rr_inv_def)
  from sum_list_bounds(1) [OF this, of "length (slices s)"] show "0 \<le> time s"
    using assms(2) by (simp add: rr_inv_def)
  have "0 \<le> sum_list (remaining_burst_time s)"
    using r by (intro sum_list_nonneg) simp
  then have "time s \<le> sum_list (map burst_time ps)"
    using assms(2) by (simp add: rr_inv_def)
  with sum_list_bounds(3) [OF b] show le: "time s \<le> MAX_BURST_TIME * int (length ps)"
    by simp
  show "\<forall>j<length ps. completion_time s ! j \<le> MAX_BURST_TIME * int (length ps)"
    using assms(2) le unfolding rr_inv_def by force
qed


end
